theory Spec2Isabelle
  imports Main "HOL-Library.Word"
begin

unbundle bit_operations_syntax

section \<open>SPS30 driver (matter\_sensor.py): frame codec\<close>

text \<open>
  Bytes are 8-bit words, a \<^verbatim>\<open>bytes\<close> or \<^verbatim>\<open>bytearray\<close> value is a list of them.
  Python's \<^verbatim>\<open>print\<close> calls write to the console only and are left out of the model.
\<close>

type_synonym byte = "8 word"
type_synonym bytes = "byte list"

subsection \<open>\<^verbatim>\<open>bytes.replace\<close> and the \<^verbatim>\<open>in\<close> test for two-byte patterns\<close>

text \<open>
  \<^verbatim>\<open>pat in raw\<close> for a two-byte pattern \<open>[a, b]\<close>: some position holds \<open>a\<close> followed by \<open>b\<close>.
\<close>

fun contains2 :: "byte \<Rightarrow> byte \<Rightarrow> bytes \<Rightarrow> bool" where
  "contains2 a b (x # y # zs) = ((x = a \<and> y = b) \<or> contains2 a b (y # zs))"
| "contains2 a b [x] = False"
| "contains2 a b [] = False"

text \<open>
  \<^verbatim>\<open>raw.replace(bytes([a, b]), bytes([c]))\<close>: every non-overlapping occurrence of the
  pattern, found scanning from the left, becomes \<open>c\<close>; the scan resumes after the
  occurrence and never looks at the byte it has just produced.
\<close>

fun replace2 :: "byte \<Rightarrow> byte \<Rightarrow> byte \<Rightarrow> bytes \<Rightarrow> bytes" where
  "replace2 a b c (x # y # zs) =
     (if x = a \<and> y = b then c # replace2 a b c zs else x # replace2 a b c (y # zs))"
| "replace2 a b c [x] = [x]"
| "replace2 a b c [] = []"

subsection \<open>\<^verbatim>\<open>SPS30.reverse_byte_stuffing\<close>\<close>

definition reverse_byte_stuffing :: "bytes \<Rightarrow> bytes" where
  "reverse_byte_stuffing raw =
     (let raw = (if contains2 0x7D 0x5E raw then replace2 0x7D 0x5E 0x7E raw else raw);
          raw = (if contains2 0x7D 0x5D raw then replace2 0x7D 0x5D 0x7D raw else raw);
          raw = (if contains2 0x7D 0x31 raw then replace2 0x7D 0x31 0x11 raw else raw);
          raw = (if contains2 0x7D 0x33 raw then replace2 0x7D 0x33 0x13 raw else raw)
      in raw)"

text \<open>
  Modelled from the spec: the forward stuffing step of \<^verbatim>\<open>buildFrame\<close>. The source has
  no frame builder (its outbound frames are literals), so the escaping is taken from
  the specification's table: \<open>0x7E \<rightarrow> 0x7D 0x5E\<close>, \<open>0x7D \<rightarrow> 0x7D 0x5D\<close>,
  \<open>0x11 \<rightarrow> 0x7D 0x31\<close>, \<open>0x13 \<rightarrow> 0x7D 0x33\<close>, every other byte unchanged.
\<close>

fun forward_stuff :: "bytes \<Rightarrow> bytes" where
  "forward_stuff [] = []"
| "forward_stuff (x # xs) =
     (if x = 0x7E then [0x7D, 0x5E]
      else if x = 0x7D then [0x7D, 0x5D]
      else if x = 0x11 then [0x7D, 0x31]
      else if x = 0x13 then [0x7D, 0x33]
      else [x]) @ forward_stuff xs"

subsection \<open>Slices, \<^verbatim>\<open>struct.unpack\<close>, \<^verbatim>\<open>decode\<close> and \<^verbatim>\<open>str\<close>\<close>

text \<open>
  \<^verbatim>\<open>raw[a:-b]\<close> for literals \<open>a\<close> and \<open>b > 0\<close>: the end index \<open>len(raw) - b\<close> is clamped at
  0 by Python, as the subtraction on \<open>nat\<close> is.
\<close>

definition slice :: "nat \<Rightarrow> nat \<Rightarrow> bytes \<Rightarrow> bytes" where
  "slice a b raw = drop a (take (length raw - b) raw)"

text \<open>
  Exceptions the driver can meet. \<^verbatim>\<open>struct.unpack\<close> raises \<^verbatim>\<open>struct.error\<close> unless the
  buffer has exactly the size of the format (the rule of Python's \<^verbatim>\<open>struct\<close> module);
  \<^verbatim>\<open>bytes.decode('ascii')\<close> raises \<^verbatim>\<open>UnicodeDecodeError\<close> on a byte above 0x7F.
\<close>

datatype exn = StructError | UnicodeDecodeError

text \<open>
  Format \<^verbatim>\<open>f\<close> of \<^verbatim>\<open>struct.unpack\<close> reads four bytes as a big-endian binary32 word (the
  first byte is the most significant) and converts the word to a float object. The
  conversion is floating-point arithmetic of the runtime and is not modelled (CPython,
  for one, returns a signalling NaN quieted): it is the parameter \<open>F\<close> of the functions
  below, from the 32-bit word to the runtime's type \<open>'f\<close> of floats, whose \<open>0\<close> stands
  for the float \<open>0.0\<close>.
\<close>

definition be32 :: "byte \<Rightarrow> byte \<Rightarrow> byte \<Rightarrow> byte \<Rightarrow> 32 word" where
  "be32 a b c d = push_bit 24 (ucast a) OR push_bit 16 (ucast b) OR push_bit 8 (ucast c) OR ucast d"

fun be_words :: "bytes \<Rightarrow> 32 word list" where
  "be_words (a # b # c # d # rest) = be32 a b c d # be_words rest"
| "be_words rest = []"

text \<open>\<^verbatim>\<open>struct.unpack(">" + n * "f", data)\<close>.\<close>

definition unpack_floats :: "(32 word \<Rightarrow> 'f) \<Rightarrow> nat \<Rightarrow> bytes \<Rightarrow> exn + 'f list" where
  "unpack_floats F n data =
     (if length data \<noteq> 4 * n then Inl StructError else Inr (map F (be_words data)))"

text \<open>\<^verbatim>\<open>struct.unpack(">" + n * "b", data)\<close>: signed bytes.\<close>

definition unpack_int8s :: "nat \<Rightarrow> bytes \<Rightarrow> exn + int list" where
  "unpack_int8s n data = (if length data \<noteq> n then Inl StructError else Inr (map sint data))"

definition decode_ascii :: "bytes \<Rightarrow> exn + string" where
  "decode_ascii bs =
     (if list_all (\<lambda>b. b < 0x80) bs then Inr (map (\<lambda>b. char_of (unat b)) bs)
      else Inl UnicodeDecodeError)"

text \<open>\<^verbatim>\<open>str\<close> of an integer, in decimal.\<close>

fun str_nat :: "nat \<Rightarrow> string" where
  "str_nat n = (if n < 10 then [char_of (48 + n)] else str_nat (n div 10) @ [char_of (48 + n mod 10)])"

definition str_int :: "int \<Rightarrow> string" where
  "str_int i = (if i < 0 then CHR ''-'' # str_nat (nat (- i)) else str_nat (nat i))"

section \<open>Protocol driver\<close>

subsection \<open>The transport\<close>

text \<open>
  \<^verbatim>\<open>self.uart\<close> is any object with \<^verbatim>\<open>any\<close>, \<^verbatim>\<open>read\<close>, \<^verbatim>\<open>write\<close> and \<^verbatim>\<open>flush\<close>. It is a
  record of these operations over a device state \<open>'u\<close>; \<open>None\<close> is Python's \<^verbatim>\<open>None\<close>,
  which \<^verbatim>\<open>read\<close> returns on a timeout.
\<close>

record 'u uart =
  any_op :: "'u \<Rightarrow> int \<times> 'u"
  read_all_op :: "'u \<Rightarrow> bytes option \<times> 'u"
  read_op :: "int \<Rightarrow> 'u \<Rightarrow> bytes option \<times> 'u"
  write_op :: "bytes \<Rightarrow> 'u \<Rightarrow> 'u"
  flush_op :: "'u \<Rightarrow> 'u"

text \<open>
  Every call on the transport is recorded, with what it returned, in a trace kept
  beside the device state: the order of the calls is what the driver's operations are
  specified by.
\<close>

datatype event =
    EvAny int
  | EvReadAll "bytes option"
  | EvRead int "bytes option"
  | EvWrite bytes
  | EvFlush

record 'u port =
  dev :: 'u
  trace :: "event list"

definition uart_any :: "'u uart \<Rightarrow> 'u port \<Rightarrow> int \<times> 'u port" where
  "uart_any U p = (case any_op U (dev p) of (n, d) \<Rightarrow> (n, \<lparr>dev = d, trace = trace p @ [EvAny n]\<rparr>))"

definition uart_read_all :: "'u uart \<Rightarrow> 'u port \<Rightarrow> bytes option \<times> 'u port" where
  "uart_read_all U p =
     (case read_all_op U (dev p) of (r, d) \<Rightarrow> (r, \<lparr>dev = d, trace = trace p @ [EvReadAll r]\<rparr>))"

definition uart_read :: "'u uart \<Rightarrow> int \<Rightarrow> 'u port \<Rightarrow> bytes option \<times> 'u port" where
  "uart_read U n p =
     (case read_op U n (dev p) of (r, d) \<Rightarrow> (r, \<lparr>dev = d, trace = trace p @ [EvRead n r]\<rparr>))"

definition uart_write :: "'u uart \<Rightarrow> bytes \<Rightarrow> 'u port \<Rightarrow> 'u port" where
  "uart_write U bs p = \<lparr>dev = write_op U bs (dev p), trace = trace p @ [EvWrite bs]\<rparr>"

definition uart_flush :: "'u uart \<Rightarrow> 'u port \<Rightarrow> 'u port" where
  "uart_flush U p = \<lparr>dev = flush_op U (dev p), trace = trace p @ [EvFlush]\<rparr>"

text \<open>The events an operation added to the trace.\<close>

definition new_events :: "'u port \<Rightarrow> 'u port \<Rightarrow> event list" where
  "new_events p p' = drop (length (trace p)) (trace p')"

subsection \<open>\<^verbatim>\<open>start\<close>, \<^verbatim>\<open>stop\<close>, \<^verbatim>\<open>flush_input\<close>\<close>

definition start :: "'u uart \<Rightarrow> 'u port \<Rightarrow> 'u port" where
  "start U p = uart_flush U (uart_write U [0x7E, 0x00, 0x00, 0x02, 0x01, 0x03, 0xF9, 0x7E] p)"

definition stop :: "'u uart \<Rightarrow> 'u port \<Rightarrow> 'u port" where
  "stop U p = uart_flush U (uart_write U [0x7E, 0x00, 0x01, 0x00, 0xFE, 0x7E] p)"

definition flush_input :: "'u uart \<Rightarrow> 'u port \<Rightarrow> 'u port" where
  "flush_input U p =
     (case uart_any U p of (n, p1) \<Rightarrow> if n \<noteq> 0 then snd (uart_read_all U p1) else p1)"

subsection \<open>\<^verbatim>\<open>read\<close>: the accumulating read loop\<close>

text \<open>
  The \<^verbatim>\<open>while length > 0\<close> loop, with \<^verbatim>\<open>data\<close> and \<^verbatim>\<open>length\<close> as arguments. The loop
  need not end, so the function is partial: \<open>None\<close> is a run that never returns,
  \<open>Some (None, p)\<close> is the return of Python's \<^verbatim>\<open>None\<close> after a timeout and
  \<open>Some (Some data, p)\<close> the return of the accumulated buffer.
\<close>

partial_function (option) read_loop ::
  "'u uart \<Rightarrow> bytes \<Rightarrow> int \<Rightarrow> 'u port \<Rightarrow> (bytes option \<times> 'u port) option" where
  "read_loop U data len p =
     (if len > 0 then
        (case uart_read U len p of
           (None, p1) \<Rightarrow> Some (None, p1)
         | (Some raw, p1) \<Rightarrow>
             (let raw' = reverse_byte_stuffing raw
              in read_loop U (data @ raw') (len - int (length raw')) p1))
      else Some (Some data, p))"

declare read_loop.simps [code]

definition read :: "'u uart \<Rightarrow> int \<Rightarrow> 'u port \<Rightarrow> (bytes option \<times> 'u port) option" where
  "read U len p = read_loop U [] len p"

subsection \<open>The reading operations\<close>

text \<open>
  An operation returns \<open>Inr None\<close> for Python's \<^verbatim>\<open>None\<close> (timeout), \<open>Inr (Some v)\<close> for
  a value and \<open>Inl e\<close> when the exception \<open>e\<close> leaves it.
\<close>

text \<open>The \<^verbatim>\<open>try\<close>/\<^verbatim>\<open>except Exception\<close> of \<^verbatim>\<open>read_values\<close> around \<^verbatim>\<open>struct.unpack\<close>.\<close>

definition unpack_values :: "(32 word \<Rightarrow> 'f::zero) \<Rightarrow> bytes \<Rightarrow> 'f list" where
  "unpack_values F raw_data =
     (case unpack_floats F 10 raw_data of
        Inr data \<Rightarrow> data
      | Inl e \<Rightarrow> replicate 10 0)"

definition read_values ::
  "(32 word \<Rightarrow> 'f::zero) \<Rightarrow> 'u uart \<Rightarrow> 'u port \<Rightarrow> ((exn + 'f list option) \<times> 'u port) option" where
  "read_values F U p =
     (let p = flush_input U p;
          p = uart_write U [0x7E, 0x00, 0x03, 0x00, 0xFC, 0x7E] p
      in case read U 47 p of
           None \<Rightarrow> None
         | Some (None, p) \<Rightarrow> Some (Inr None, p)
         | Some (Some raw, p) \<Rightarrow> Some (Inr (Some (unpack_values F (slice 5 2 raw))), p))"

definition read_product_type :: "'u uart \<Rightarrow> 'u port \<Rightarrow> (exn + string option) \<times> 'u port" where
  "read_product_type U p =
     (let p = flush_input U p;
          p = uart_write U [0x7E, 0x00, 0xD0, 0x01, 0x00, 0x2E, 0x7E] p
      in case uart_read U 24 p of
           (None, p) \<Rightarrow> (Inr None, p)
         | (Some raw, p) \<Rightarrow>
             (let raw = reverse_byte_stuffing raw
              in (map_sum id Some (decode_ascii (slice 5 3 raw)), p)))"

definition read_serial_number :: "'u uart \<Rightarrow> 'u port \<Rightarrow> (exn + string option) \<times> 'u port" where
  "read_serial_number U p =
     (let p = flush_input U p;
          p = uart_write U [0x7E, 0x00, 0xD0, 0x01, 0x03, 0x2B, 0x7E] p
      in case uart_read U 24 p of
           (None, p) \<Rightarrow> (Inr None, p)
         | (Some raw, p) \<Rightarrow>
             (let raw = reverse_byte_stuffing raw
              in (map_sum id Some (decode_ascii (slice 5 3 raw)), p)))"

definition read_firmware_version :: "'u uart \<Rightarrow> 'u port \<Rightarrow> (exn + string option) \<times> 'u port" where
  "read_firmware_version U p =
     (let p = flush_input U p;
          p = uart_write U [0x7E, 0x00, 0xD1, 0x00, 0x2E, 0x7E] p
      in case uart_read U 14 p of
           (None, p) \<Rightarrow> (Inr None, p)
         | (Some raw, p) \<Rightarrow>
             (let raw = reverse_byte_stuffing raw
              in case unpack_int8s 7 (slice 5 2 raw) of
                   Inl e \<Rightarrow> (Inl e, p)
                 | Inr data \<Rightarrow> (Inr (Some (str_int (data ! 0) @ ''.'' @ str_int (data ! 1))), p)))"

section \<open>Notions the specification uses\<close>

subsection \<open>The SHDLC checksum of a frame\<close>

text \<open>
  The checksum of a frame body (address, command, length, payload): the bitwise
  complement of the low byte of the sum of its bytes.
\<close>

definition shdlc_checksum :: "bytes \<Rightarrow> byte" where
  "shdlc_checksum body = NOT (word_of_nat (sum_list (map unat body)))"

text \<open>
  A frame \<open>0x7E, body, checksum, 0x7E\<close> carries the right checksum: the byte before
  the closing marker is the checksum of the bytes between the opening marker and it.
\<close>

definition checksum_ok :: "bytes \<Rightarrow> bool" where
  "checksum_ok f =
     (6 \<le> length f \<and> hd f = 0x7E \<and> last f = 0x7E \<and>
      f ! (length f - 2) = shdlc_checksum (take (length f - 3) (drop 1 f)))"

text \<open>The frames written to the transport, in order.\<close>

fun written :: "event list \<Rightarrow> bytes list" where
  "written [] = []"
| "written (EvWrite f # es) = f # written es"
| "written (e # es) = written es"

text \<open>
  An operation begins with the input flush when its first events are those of
  \<open>flush_input\<close> (\<^verbatim>\<open>any()\<close>, and the discarding \<^verbatim>\<open>read()\<close> exactly when \<^verbatim>\<open>any()\<close> was
  not zero) and the write of the command frame comes right after them.
\<close>

fun flushes_then_writes :: "event list \<Rightarrow> bool" where
  "flushes_then_writes (EvAny n # EvWrite f # es) = (n = 0)"
| "flushes_then_writes (EvAny n # EvReadAll r # EvWrite f # es) = (n \<noteq> 0)"
| "flushes_then_writes es = False"

subsection \<open>The transport contract\<close>

text \<open>
  \<^verbatim>\<open>read(n)\<close> returns at most \<open>n\<close> bytes, or \<^verbatim>\<open>None\<close> on a timeout.
\<close>

definition reads_bounded :: "'u uart \<Rightarrow> bool" where
  "reads_bounded U =
     (\<forall>n u. 0 < n \<longrightarrow> (case fst (read_op U n u) of None \<Rightarrow> True | Some bs \<Rightarrow> int (length bs) \<le> n))"

text \<open>
  The stricter contract of MicroPython's UART, where a read that has no byte to give
  times out: \<^verbatim>\<open>read(n)\<close> returns between 1 and \<open>n\<close> bytes, or \<^verbatim>\<open>None\<close>.
\<close>

definition reads_nonempty :: "'u uart \<Rightarrow> bool" where
  "reads_nonempty U =
     (\<forall>n u. 0 < n \<longrightarrow>
        (case fst (read_op U n u) of None \<Rightarrow> True | Some bs \<Rightarrow> 1 \<le> length bs \<and> int (length bs) \<le> n))"

subsection \<open>Simulated transports\<close>

text \<open>
  A simulated sensor: \<open>rx\<close> holds the bytes received and not yet read, and each write
  of a frame makes the next scripted reply arrive. A read hands out at most \<open>k\<close> bytes
  at a time and times out when nothing is pending.
\<close>

record sim =
  rx :: bytes
  replies :: "bytes list"

definition sim_uart :: "nat \<Rightarrow> sim uart" where
  "sim_uart k =
     \<lparr>any_op = (\<lambda>s. (int (length (rx s)), s)),
      read_all_op = (\<lambda>s. (if rx s = [] then None else Some (rx s), s\<lparr>rx := []\<rparr>)),
      read_op = (\<lambda>n s. if rx s = [] then (None, s)
                        else (Some (take (min k (nat n)) (rx s)),
                              s\<lparr>rx := drop (min k (nat n)) (rx s)\<rparr>)),
      write_op = (\<lambda>bs s. case replies s of [] \<Rightarrow> s | r # rs \<Rightarrow> \<lparr>rx = rx s @ r, replies = rs\<rparr>),
      flush_op = (\<lambda>s. s)\<rparr>"

text \<open>A transport whose reads return no byte and never time out.\<close>

definition stalled_uart :: "unit uart" where
  "stalled_uart =
     \<lparr>any_op = (\<lambda>s. (0, s)), read_all_op = (\<lambda>s. (None, s)), read_op = (\<lambda>n s. (Some [], s)),
      write_op = (\<lambda>bs s. s), flush_op = (\<lambda>s. s)\<rparr>"

definition port0 :: "'u \<Rightarrow> 'u port" where
  "port0 d = \<lparr>dev = d, trace = []\<rparr>"

text \<open>The documented 47-byte response frame with new measurement values, all zero.\<close>

definition values_reply :: bytes where
  "values_reply = [0x7E, 0x00, 0x03, 0x00, 0x28] @ replicate 40 0x00 @ [0xD4, 0x7E]"

text \<open>A port of the simulated sensor with three stale bytes pending and one reply scripted.\<close>

text \<open>A response frame whose tenth value is the word \<open>0x3F800000\<close>, the others zero.\<close>

definition values_reply_one :: bytes where
  "values_reply_one =
     [0x7E, 0x00, 0x03, 0x00, 0x28] @ replicate 36 0x00 @ [0x3F, 0x80, 0x00, 0x00] @ [0x15, 0x7E]"

definition sim0 :: sim where
  "sim0 = \<lparr>rx = [0x01, 0x02, 0x03], replies = [values_reply]\<rparr>"

text \<open>A port of the simulated sensor where only the first two bytes of a reply arrive.\<close>

definition sim1 :: sim where
  "sim1 = \<lparr>rx = [0x01, 0x02, 0x03], replies = [values_reply_one]\<rparr>"

definition sim_short :: sim where
  "sim_short = \<lparr>rx = [0x7E, 0x00], replies = []\<rparr>"

section \<open>Properties of the codec and of the read loop\<close>

lemma length_replace2_le: "length (replace2 a b c xs) \<le> length xs"
  by (induction a b c xs rule: replace2.induct) auto

lemma replace2_nonempty: "xs \<noteq> [] \<Longrightarrow> replace2 a b c xs \<noteq> []"
  by (induction a b c xs rule: replace2.induct) auto

lemma length_reverse_byte_stuffing_le: "length (reverse_byte_stuffing raw) \<le> length raw"
proof -
  have step: "\<And>a b c xs. length (if contains2 a b xs then replace2 a b c xs else xs) \<le> length xs"
    by (simp add: length_replace2_le)
  show ?thesis
    unfolding reverse_byte_stuffing_def Let_def
    by (meson step order_trans)
qed

lemma reverse_byte_stuffing_nonempty: "raw \<noteq> [] \<Longrightarrow> reverse_byte_stuffing raw \<noteq> []"
  unfolding reverse_byte_stuffing_def Let_def
  by (simp add: replace2_nonempty)

lemma fst_uart_read: "fst (uart_read U n p) = fst (read_op U n (dev p))"
  by (simp add: uart_read_def split: prod.splits)

lemma trace_uart_read: "trace (snd (uart_read U n p)) = trace p @ [EvRead n (fst (uart_read U n p))]"
  by (simp add: uart_read_def split: prod.splits)

lemma read_loop_trace:
  assumes "read_loop U data len p = Some y"
  shows "\<exists>evs. trace (snd y) = trace p @ evs \<and> written evs = [] \<and>
           ((\<exists>m. EvRead m None \<in> set evs) \<longrightarrow> fst y = None)"
  using assms
proof (induction rule: read_loop.raw_induct[rotated 1, consumes 1])
  case (1 loop U data len p y)
  show ?case
  proof (cases "0 < len")
    case False
    with 1(2) have "y = (Some data, p)" by simp
    then show ?thesis by simp
  next
    case True
    obtain r p1 where rd: "uart_read U len p = (r, p1)" by (cases "uart_read U len p")
    have tr: "trace p1 = trace p @ [EvRead len r]"
      using trace_uart_read[of U len p] rd by simp
    show ?thesis
    proof (cases r)
      case None
      with 1(2) True rd have "y = (None, p1)" by simp
      with tr show ?thesis by simp
    next
      case (Some raw)
      with 1(2) True rd
      have "loop U (data @ reverse_byte_stuffing raw) (len - int (length (reverse_byte_stuffing raw))) p1 = Some y"
        by (simp add: Let_def)
      from 1(1)[OF this] obtain evs where
        e: "trace (snd y) = trace p1 @ evs" "written evs = []"
           "(\<exists>m. EvRead m None \<in> set evs) \<longrightarrow> fst y = None"
        by blast
      have "trace (snd y) = trace p @ (EvRead len r # evs)" using e(1) tr by simp
      moreover have "written (EvRead len r # evs) = []" using e(2) by simp
      moreover have "(\<exists>m. EvRead m None \<in> set (EvRead len r # evs)) \<longrightarrow> fst y = None"
        using e(3) Some by auto
      ultimately show ?thesis by blast
    qed
  qed
qed

lemma read_loop_length:
  assumes "read_loop U data len p = Some y" and "reads_bounded U" and "0 \<le> len" and "fst y = Some out"
  shows "int (length out) = int (length data) + len"
  using assms
proof (induction arbitrary: out rule: read_loop.raw_induct[rotated 1, consumes 1])
  case (1 loop U data len p y)
  show ?case
  proof (cases "0 < len")
    case False
    with 1(2) have "y = (Some data, p)" by simp
    with 1(4,5) False show ?thesis by simp
  next
    case True
    obtain r p1 where rd: "uart_read U len p = (r, p1)" by (cases "uart_read U len p")
    show ?thesis
    proof (cases r)
      case None
      with 1(2) True rd have "y = (None, p1)" by simp
      with 1(5) show ?thesis by simp
    next
      case (Some raw)
      let ?raw' = "reverse_byte_stuffing raw"
      from Some 1(2) True rd
      have run: "loop U (data @ ?raw') (len - int (length ?raw')) p1 = Some y"
        by (simp add: Let_def)
      have "fst (read_op U len (dev p)) = Some raw"
        using rd Some fst_uart_read[of U len p] by simp
      with 1(3) True have "int (length raw) \<le> len"
        by (auto simp: reads_bounded_def split: option.splits)
      then have nonneg: "0 \<le> len - int (length ?raw')"
        using length_reverse_byte_stuffing_le[of raw] by linarith
      from 1(1)[OF run 1(3) nonneg 1(5)] show ?thesis by simp
    qed
  qed
qed

lemma read_loop_returns:
  assumes "reads_nonempty U"
  shows "\<exists>y. read_loop U data len p = Some y"
proof (induction "nat len" arbitrary: data len p rule: less_induct)
  case less
  show ?case
  proof (cases "0 < len")
    case False
    then show ?thesis by (subst read_loop.simps) simp
  next
    case True
    obtain r p1 where rd: "uart_read U len p = (r, p1)" by (cases "uart_read U len p")
    show ?thesis
    proof (cases r)
      case None
      with True rd show ?thesis by (subst read_loop.simps) simp
    next
      case (Some raw)
      let ?raw' = "reverse_byte_stuffing raw"
      have "fst (read_op U len (dev p)) = Some raw"
        using rd Some fst_uart_read[of U len p] by simp
      moreover from assms True
      have "case fst (read_op U len (dev p)) of None \<Rightarrow> True
            | Some bs \<Rightarrow> 1 \<le> length bs \<and> int (length bs) \<le> len"
        unfolding reads_nonempty_def by blast
      ultimately have "raw \<noteq> []" by auto
      then have "?raw' \<noteq> []" by (rule reverse_byte_stuffing_nonempty)
      then have "nat (len - int (length ?raw')) < nat len" using True by (cases ?raw') auto
      from less[OF this] obtain y where
        "read_loop U (data @ ?raw') (len - int (length ?raw')) p1 = Some y" by blast
      with True rd Some show ?thesis by (subst read_loop.simps) (simp add: Let_def)
    qed
  qed
qed

lemma stalled_no_return:
  assumes "read_loop U data len p = Some y" and "U = stalled_uart" and "0 < len"
  shows False
  using assms
proof (induction rule: read_loop.raw_induct[rotated 1, consumes 1])
  case (1 loop U data len p y)
  have "uart_read U len p = (Some [], snd (uart_read U len p))"
    using 1(3) by (simp add: uart_read_def stalled_uart_def)
  moreover have "reverse_byte_stuffing [] = []" by (simp add: reverse_byte_stuffing_def)
  ultimately have "loop U data len (snd (uart_read U len p)) = Some y"
    using 1(2,4) by (simp add: Let_def split: prod.splits)
  from 1(1)[OF this 1(3,4)] show ?case .
qed

lemma stalled_diverges: "0 < len \<Longrightarrow> read_loop stalled_uart data len p = None"
  using stalled_no_return[of stalled_uart data len p] by (cases "read_loop stalled_uart data len p") auto

lemma stalled_bounded: "reads_bounded stalled_uart"
  by (simp add: reads_bounded_def stalled_uart_def)

lemma sim_nonempty: "0 < k \<Longrightarrow> reads_nonempty (sim_uart k)"
  by (auto simp: reads_nonempty_def sim_uart_def Suc_le_eq)

lemma sim_bounded: "reads_bounded (sim_uart k)"
  by (auto simp: reads_bounded_def sim_uart_def)


lemma flush_input_events:
  "\<exists>fl. trace (flush_input U p) = trace p @ fl \<and> written fl = [] \<and>
        (\<forall>f es. flushes_then_writes (fl @ EvWrite f # es))"
proof -
  obtain n d where a: "any_op U (dev p) = (n, d)" by (cases "any_op U (dev p)")
  show ?thesis
  proof (cases "n = 0")
    case True
    with a have "trace (flush_input U p) = trace p @ [EvAny 0]"
      by (simp add: flush_input_def uart_any_def)
    then show ?thesis by simp
  next
    case False
    obtain r d' where b: "read_all_op U d = (r, d')" by (cases "read_all_op U d")
    from a b False have "trace (flush_input U p) = trace p @ [EvAny n, EvReadAll r]"
      by (simp add: flush_input_def uart_any_def uart_read_all_def)
    with False show ?thesis by simp
  qed
qed

lemma request_events:
  "\<exists>fl. trace (uart_write U f (flush_input U p)) = trace p @ fl @ [EvWrite f] \<and> written fl = [] \<and>
        (\<forall>es. flushes_then_writes (fl @ EvWrite f # es))"
  using flush_input_events[of U p] by (auto simp: uart_write_def)

lemma written_append: "written (xs @ ys) = written xs @ written ys"
  by (induction xs rule: written.induct) auto

lemma single_read_events:
  assumes "q = uart_write U f (flush_input U p)"
  shows "\<exists>fl r. new_events p (snd (uart_read U n q)) = fl @ EvWrite f # [EvRead n r] \<and> written fl = [] \<and>
        (\<forall>es. flushes_then_writes (fl @ EvWrite f # es))"
proof -
  from request_events[of U f p] assms obtain fl where
    fl: "trace q = trace p @ fl @ [EvWrite f]" "written fl = []"
        "\<forall>es. flushes_then_writes (fl @ EvWrite f # es)" by blast
  have "trace (snd (uart_read U n q)) = trace p @ fl @ [EvWrite f, EvRead n (fst (uart_read U n q))]"
    using trace_uart_read[of U n q] fl(1) by simp
  then have "new_events p (snd (uart_read U n q)) = fl @ EvWrite f # [EvRead n (fst (uart_read U n q))]"
    by (simp add: new_events_def)
  with fl(2,3) show ?thesis by blast
qed

lemma snd_read_product_type:
  "snd (read_product_type U p) =
   snd (uart_read U 24 (uart_write U [0x7E, 0x00, 0xD0, 0x01, 0x00, 0x2E, 0x7E] (flush_input U p)))"
  by (simp add: read_product_type_def Let_def split: prod.splits option.splits)

lemma snd_read_serial_number:
  "snd (read_serial_number U p) =
   snd (uart_read U 24 (uart_write U [0x7E, 0x00, 0xD0, 0x01, 0x03, 0x2B, 0x7E] (flush_input U p)))"
  by (simp add: read_serial_number_def Let_def split: prod.splits option.splits)

lemma snd_read_firmware_version:
  "snd (read_firmware_version U p) =
   snd (uart_read U 14 (uart_write U [0x7E, 0x00, 0xD1, 0x00, 0x2E, 0x7E] (flush_input U p)))"
  by (simp add: read_firmware_version_def Let_def split: prod.splits option.splits sum.splits)

lemma read_product_type_events:
  "\<exists>fl r. new_events p (snd (read_product_type U p)) =
            fl @ EvWrite [0x7E, 0x00, 0xD0, 0x01, 0x00, 0x2E, 0x7E] # [EvRead 24 r] \<and> written fl = [] \<and>
        (\<forall>es. flushes_then_writes (fl @ EvWrite [0x7E, 0x00, 0xD0, 0x01, 0x00, 0x2E, 0x7E] # es))"
  unfolding snd_read_product_type by (rule single_read_events) simp

lemma read_serial_number_events:
  "\<exists>fl r. new_events p (snd (read_serial_number U p)) =
            fl @ EvWrite [0x7E, 0x00, 0xD0, 0x01, 0x03, 0x2B, 0x7E] # [EvRead 24 r] \<and> written fl = [] \<and>
        (\<forall>es. flushes_then_writes (fl @ EvWrite [0x7E, 0x00, 0xD0, 0x01, 0x03, 0x2B, 0x7E] # es))"
  unfolding snd_read_serial_number by (rule single_read_events) simp

lemma read_firmware_version_events:
  "\<exists>fl r. new_events p (snd (read_firmware_version U p)) =
            fl @ EvWrite [0x7E, 0x00, 0xD1, 0x00, 0x2E, 0x7E] # [EvRead 14 r] \<and> written fl = [] \<and>
        (\<forall>es. flushes_then_writes (fl @ EvWrite [0x7E, 0x00, 0xD1, 0x00, 0x2E, 0x7E] # es))"
  unfolding snd_read_firmware_version by (rule single_read_events) simp

lemma read_values_events:
  assumes "read_values F U p = Some (r, p')"
  shows "\<exists>fl rest. new_events p p' = fl @ EvWrite [0x7E, 0x00, 0x03, 0x00, 0xFC, 0x7E] # rest \<and>
        written fl = [] \<and> written rest = [] \<and>
        (\<forall>es. flushes_then_writes (fl @ EvWrite [0x7E, 0x00, 0x03, 0x00, 0xFC, 0x7E] # es))"
proof -
  define q where "q = uart_write U [0x7E, 0x00, 0x03, 0x00, 0xFC, 0x7E] (flush_input U p)"
  from assms obtain res where rd: "read_loop U [] 47 q = Some (res, p')"
    by (auto simp: read_values_def read_def q_def Let_def split: option.splits prod.splits)
  from read_loop_trace[OF rd] obtain evs where
    evs: "trace p' = trace q @ evs" "written evs = []" by auto
  from request_events[of U "[0x7E, 0x00, 0x03, 0x00, 0xFC, 0x7E]" p] obtain fl where
    fl: "trace q = trace p @ fl @ [EvWrite [0x7E, 0x00, 0x03, 0x00, 0xFC, 0x7E]]" "written fl = []"
        "\<forall>es. flushes_then_writes (fl @ EvWrite [0x7E, 0x00, 0x03, 0x00, 0xFC, 0x7E] # es)"
    unfolding q_def by blast
  have "new_events p p' = fl @ EvWrite [0x7E, 0x00, 0x03, 0x00, 0xFC, 0x7E] # evs"
    using evs(1) fl(1) by (simp add: new_events_def)
  with evs(2) fl(2,3) show ?thesis by blast
qed

lemma new_events_start:
  "new_events p (start U p) = [EvWrite [0x7E, 0x00, 0x00, 0x02, 0x01, 0x03, 0xF9, 0x7E], EvFlush]"
  by (simp add: new_events_def start_def uart_flush_def uart_write_def)

lemma new_events_stop:
  "new_events p (stop U p) = [EvWrite [0x7E, 0x00, 0x01, 0x00, 0xFE, 0x7E], EvFlush]"
  by (simp add: new_events_def stop_def uart_flush_def uart_write_def)

lemma checksum_frames:
  "checksum_ok [0x7E, 0x00, 0x00, 0x02, 0x01, 0x03, 0xF9, 0x7E]"
  "checksum_ok [0x7E, 0x00, 0x01, 0x00, 0xFE, 0x7E]"
  "checksum_ok [0x7E, 0x00, 0x03, 0x00, 0xFC, 0x7E]"
  "checksum_ok [0x7E, 0x00, 0xD0, 0x01, 0x00, 0x2E, 0x7E]"
  "checksum_ok [0x7E, 0x00, 0xD0, 0x01, 0x03, 0x2B, 0x7E]"
  "checksum_ok [0x7E, 0x00, 0xD1, 0x00, 0x2E, 0x7E]"
  by (simp_all add: checksum_ok_def shdlc_checksum_def)

lemma be_words_nth:
  "length p = 4 * n \<Longrightarrow> length (be_words p) = n \<and>
     (\<forall>i<n. be_words p ! i = be32 (p ! (4 * i)) (p ! (4 * i + 1)) (p ! (4 * i + 2)) (p ! (4 * i + 3)))"
proof (induction n arbitrary: p)
  case 0
  then show ?case by simp
next
  case (Suc n)
  then obtain a b c d rest where p: "p = a # b # c # d # rest" and r: "length rest = 4 * n"
    by (cases p; simp; rename_tac x xs; case_tac xs; simp; rename_tac y ys; case_tac ys; simp;
        rename_tac z zs; case_tac zs; simp)
  from Suc.IH[OF r] have ih: "length (be_words rest) = n"
    "\<And>i. i < n \<Longrightarrow> be_words rest ! i =
        be32 (rest ! (4 * i)) (rest ! (4 * i + 1)) (rest ! (4 * i + 2)) (rest ! (4 * i + 3))"
    by auto
  show ?case
  proof (intro conjI allI impI)
    show "length (be_words p) = Suc n" using p ih(1) by simp
  next
    fix i assume "i < Suc n"
    show "be_words p ! i = be32 (p ! (4 * i)) (p ! (4 * i + 1)) (p ! (4 * i + 2)) (p ! (4 * i + 3))"
    proof (cases i)
      case 0
      then show ?thesis using p by simp
    next
      case (Suc j)
      with \<open>i < Suc n\<close> have "j < n" by simp
      have e: "4 * i = Suc (Suc (Suc (Suc (4 * j))))" using Suc by simp
      show ?thesis using ih(2)[OF \<open>j < n\<close>] p Suc by (simp add: e add.commute)
    qed
  qed
qed



lemma unpack_values_decodes:
  assumes "length d = 40"
  shows "unpack_values F d = map F (be_words d)"
    and "length (unpack_values F d) = 10"
    and "i < 10 \<Longrightarrow> unpack_values F d ! i =
           F (be32 (d ! (4 * i)) (d ! (4 * i + 1)) (d ! (4 * i + 2)) (d ! (4 * i + 3)))"
proof -
  from assms have l: "length d = 4 * 10" by simp
  show u: "unpack_values F d = map F (be_words d)"
    using assms by (simp add: unpack_values_def unpack_floats_def)
  show "length (unpack_values F d) = 10" using be_words_nth[OF l] u by simp
  show "i < 10 \<Longrightarrow> unpack_values F d ! i =
           F (be32 (d ! (4 * i)) (d ! (4 * i + 1)) (d ! (4 * i + 2)) (d ! (4 * i + 3)))"
    using be_words_nth[OF l] u by simp
qed

lemma read_values_of_read:
  "read_values F U p =
     (case read U 47 (uart_write U [0x7E, 0x00, 0x03, 0x00, 0xFC, 0x7E] (flush_input U p)) of
        None \<Rightarrow> None
      | Some (None, p') \<Rightarrow> Some (Inr None, p')
      | Some (Some raw, p') \<Rightarrow> Some (Inr (Some (unpack_values F (slice 5 2 raw))), p'))"
  by (simp add: read_values_def Let_def)

section \<open>The claims\<close>

subsection \<open>C1: the round-trip law of byte stuffing\<close>

text \<open>
  C1. The claim is that \<open>reverse_byte_stuffing (forward_stuff p) = p\<close> for every payload
  \<open>p\<close>. The four replacements run one after the other over the whole buffer, so the
  \<open>0x7D\<close> that the second one restores is read again by the third: the payload
  \<open>0x7D 0x31\<close> is stuffed to \<open>0x7D 0x5D 0x31\<close> and comes back as the single byte \<open>0x11\<close>.
\<close>

theorem reverse_byte_stuffing_7D_31:
  "forward_stuff [0x7D, 0x31] = [0x7D, 0x5D, 0x31] \<and>
   reverse_byte_stuffing (forward_stuff [0x7D, 0x31]) = [0x11] \<and>
   reverse_byte_stuffing (forward_stuff [0x7D, 0x31]) \<noteq> [0x7D, 0x31]"
  by (simp add: reverse_byte_stuffing_def)

subsection \<open>C2: escape sequences split over two reads\<close>

text \<open>
  C2. The claim is that \<open>read\<close> accumulates what \<open>reverse_byte_stuffing\<close> gives on the
  concatenation of the chunks. The loop reverses the stuffing of each chunk on its own:
  when the transport delivers \<open>0x7D\<close> and \<open>0x5E\<close> in two reads, \<open>read 2\<close> returns both
  bytes unchanged, where the concatenation destuffs to \<open>0x7E\<close>.
\<close>

theorem read_split_escape:
  "map_option (\<lambda>r. (fst r, trace (snd r)))
     (read (sim_uart 1) 2 (port0 \<lparr>rx = [0x7D, 0x5E], replies = []\<rparr>)) =
     Some (Some [0x7D, 0x5E], [EvRead 2 (Some [0x7D]), EvRead 1 (Some [0x5E])]) \<and>
   reverse_byte_stuffing ([0x7D] @ [0x5E]) = [0x7E]"
  by code_simp

subsection \<open>C3: termination of the read loop\<close>

text \<open>
  C3, as stated, fails: the loop leaves only on a timeout or when a chunk has brought
  the count down, so a transport that keeps returning zero bytes, which the contract
  of 0 to \<open>n\<close> bytes allows, keeps \<open>read 1\<close> in the loop for ever.
\<close>

theorem read_stalled_never_returns:
  "reads_bounded stalled_uart \<and> read stalled_uart 1 (port0 ()) = None"
  using stalled_bounded stalled_diverges[of 1 "[]" "port0 ()"] by (simp add: read_def)

text \<open>
  C3, amended: when every read returns between 1 and \<open>n\<close> bytes or times out, as
  MicroPython's UART does, \<open>read\<close> returns for every length and every port. Each chunk
  destuffs to at least one byte, so the count goes down at every turn.
\<close>

theorem read_terminates: "reads_nonempty U \<Longrightarrow> \<exists>y. read U len p = Some y"
  unfolding read_def by (rule read_loop_returns)

theorem read_terminates_witness:
  "reads_nonempty (sim_uart 1) \<and>
   (\<exists>y. read (sim_uart 1) 2 (port0 \<lparr>rx = [0x7D, 0x5E], replies = []\<rparr>) = Some y)"
proof -
  have h: "reads_nonempty (sim_uart 1)" by (rule sim_nonempty) simp
  from read_terminates[OF h] h show ?thesis by blast
qed

subsection \<open>C4: a timeout discards the partial buffer\<close>

text \<open>
  C4. When the read of the current turn times out, the loop returns \<^verbatim>\<open>None\<close> whatever
  it had accumulated in \<open>data\<close>; and when a run of \<open>read\<close> that returned has a timed-out
  read among its transport calls, what it returned is \<^verbatim>\<open>None\<close>, never a buffer.
\<close>

theorem read_timeout_returns_none:
  "(0 < len \<longrightarrow> fst (read_op U len (dev p)) = None \<longrightarrow>
      map_option fst (read_loop U data len p) = Some None) \<and>
   (read U n p = Some (res, p') \<longrightarrow> EvRead m None \<in> set (new_events p p') \<longrightarrow> res = None)"
proof (intro conjI impI)
  assume "0 < len" and "fst (read_op U len (dev p)) = None"
  then have "\<exists>p1. uart_read U len p = (None, p1)"
    by (cases "read_op U len (dev p)") (simp add: uart_read_def)
  then obtain p1 where "uart_read U len p = (None, p1)" ..
  with \<open>0 < len\<close> show "map_option fst (read_loop U data len p) = Some None"
    by (subst read_loop.simps) simp
next
  assume r: "read U n p = Some (res, p')" and t: "EvRead m None \<in> set (new_events p p')"
  from r have "read_loop U [] n p = Some (res, p')" by (simp add: read_def)
  from read_loop_trace[OF this] obtain evs where
    "trace p' = trace p @ evs" "(\<exists>m. EvRead m None \<in> set evs) \<longrightarrow> res = None" by auto
  with t show "res = None" by (auto simp: new_events_def)
qed

theorem read_timeout_returns_none_witness:
  "(0::int) < 3 \<and> fst (read_op (sim_uart 2) 3 (dev (port0 \<lparr>rx = [], replies = []\<rparr>))) = None \<and>
   map_option fst (read_loop (sim_uart 2) [0x7E, 0x00] 3 (port0 \<lparr>rx = [], replies = []\<rparr>)) = Some None \<and>
   (\<exists>p'. read (sim_uart 2) 5 (port0 sim_short) = Some (None, p') \<and>
          EvRead 3 None \<in> set (new_events (port0 sim_short) p'))"
proof -
  have a: "(0::int) < 3" by simp
  have b: "fst (read_op (sim_uart 2) 3 (dev (port0 \<lparr>rx = [], replies = []\<rparr>))) = None"
    by (simp add: sim_uart_def port0_def)
  from read_timeout_returns_none[of 3 "sim_uart 2" "port0 \<lparr>rx = [], replies = []\<rparr>" "[0x7E, 0x00]"] a b
  have c: "map_option fst (read_loop (sim_uart 2) [0x7E, 0x00] 3 (port0 \<lparr>rx = [], replies = []\<rparr>)) = Some None"
    by blast
  have d: "read (sim_uart 2) 5 (port0 sim_short) =
           Some (None, \<lparr>dev = \<lparr>rx = [], replies = []\<rparr>, trace = [EvRead 5 (Some [0x7E, 0x00]), EvRead 3 None]\<rparr>)"
    by code_simp
  have e: "EvRead 3 None \<in> set (new_events (port0 sim_short)
             \<lparr>dev = \<lparr>rx = [], replies = []\<rparr>, trace = [EvRead 5 (Some [0x7E, 0x00]), EvRead 3 None]\<rparr>)"
    by (simp add: new_events_def port0_def)
  from a b c d e show ?thesis by blast
qed

subsection \<open>C5: the checksum of every outbound frame\<close>

text \<open>
  C5. Every operation writes exactly one frame, and in that frame the byte before the
  closing \<open>0x7E\<close> is the complement of the low byte of the sum of the bytes between the
  opening \<open>0x7E\<close> and it. For \<open>read_values\<close>, whose read loop may not return, this is
  stated of every run that returns.
\<close>

theorem outbound_checksums:
  "(\<exists>f. written (new_events p (start U p)) = [f] \<and> checksum_ok f) \<and>
   (\<exists>f. written (new_events p (stop U p)) = [f] \<and> checksum_ok f) \<and>
   (\<exists>f. written (new_events p (snd (read_product_type U p))) = [f] \<and> checksum_ok f) \<and>
   (\<exists>f. written (new_events p (snd (read_serial_number U p))) = [f] \<and> checksum_ok f) \<and>
   (\<exists>f. written (new_events p (snd (read_firmware_version U p))) = [f] \<and> checksum_ok f) \<and>
   (read_values F U p = Some (r, p') \<longrightarrow> (\<exists>f. written (new_events p p') = [f] \<and> checksum_ok f))"
proof (intro conjI impI)
  show "\<exists>f. written (new_events p (start U p)) = [f] \<and> checksum_ok f"
    using checksum_frames(1) by (simp add: new_events_def start_def uart_flush_def uart_write_def)
  show "\<exists>f. written (new_events p (stop U p)) = [f] \<and> checksum_ok f"
    using checksum_frames(2) by (simp add: new_events_def stop_def uart_flush_def uart_write_def)
  show "\<exists>f. written (new_events p (snd (read_product_type U p))) = [f] \<and> checksum_ok f"
    using read_product_type_events[of p U] checksum_frames(4) by (auto simp: written_append)
  show "\<exists>f. written (new_events p (snd (read_serial_number U p))) = [f] \<and> checksum_ok f"
    using read_serial_number_events[of p U] checksum_frames(5) by (auto simp: written_append)
  show "\<exists>f. written (new_events p (snd (read_firmware_version U p))) = [f] \<and> checksum_ok f"
    using read_firmware_version_events[of p U] checksum_frames(6) by (auto simp: written_append)
  assume "read_values F U p = Some (r, p')"
  from read_values_events[OF this] checksum_frames(3)
  show "\<exists>f. written (new_events p p') = [f] \<and> checksum_ok f"
    by (auto simp: written_append)
qed

theorem outbound_checksums_witness:
  "\<exists>r p'. read_values uint (sim_uart 20) (port0 sim0) = Some (r, p') \<and>
     (\<exists>f. written (new_events (port0 sim0) p') = [f] \<and> checksum_ok f)"
proof -
  have "read_values uint (sim_uart 20) (port0 sim0) \<noteq> None" by code_simp
  then obtain r p' where h: "read_values uint (sim_uart 20) (port0 sim0) = Some (r, p')" by auto
  from outbound_checksums[of "port0 sim0" "sim_uart 20" uint r p'] h
  have "\<exists>f. written (new_events (port0 sim0) p') = [f] \<and> checksum_ok f" by blast
  with h show ?thesis by blast
qed

subsection \<open>C6: the device-information frames\<close>

text \<open>
  C6, as stated, fails for \<open>read_product_type\<close>: in the frame it writes, the byte
  after the command \<open>0xD0\<close> is the length \<open>0x01\<close> and the argument byte that follows the
  length is \<open>0x00\<close>, not \<open>0x01\<close>.
\<close>

theorem product_type_argument_byte:
  "hd (written (new_events (port0 sim0) (snd (read_product_type (sim_uart 20) (port0 sim0))))) ! 3 = 0x01 \<and>
   hd (written (new_events (port0 sim0) (snd (read_product_type (sim_uart 20) (port0 sim0))))) ! 4 = 0x00 \<and>
   hd (written (new_events (port0 sim0) (snd (read_product_type (sim_uart 20) (port0 sim0))))) ! 4 \<noteq> 0x01"
  by code_simp

text \<open>
  C6, amended: both operations write one frame of seven bytes with command \<open>0xD0\<close> and
  length \<open>0x01\<close>; the argument byte after the length is \<open>0x00\<close> for \<open>read_product_type\<close>
  and \<open>0x03\<close> for \<open>read_serial_number\<close>.
\<close>

theorem device_info_frames:
  "(\<exists>f. written (new_events p (snd (read_product_type U p))) = [f] \<and>
        f ! 2 = 0xD0 \<and> f ! 3 = 0x01 \<and> f ! 4 = 0x00 \<and> length f = 7) \<and>
   (\<exists>f. written (new_events p (snd (read_serial_number U p))) = [f] \<and>
        f ! 2 = 0xD0 \<and> f ! 3 = 0x01 \<and> f ! 4 = 0x03 \<and> length f = 7)"
proof
  show "\<exists>f. written (new_events p (snd (read_product_type U p))) = [f] \<and>
        f ! 2 = 0xD0 \<and> f ! 3 = 0x01 \<and> f ! 4 = 0x00 \<and> length f = 7"
    using read_product_type_events[of p U] by (auto simp: written_append)
  show "\<exists>f. written (new_events p (snd (read_serial_number U p))) = [f] \<and>
        f ! 2 = 0xD0 \<and> f ! 3 = 0x01 \<and> f ! 4 = 0x03 \<and> length f = 7"
    using read_serial_number_events[of p U] by (auto simp: written_append)
qed

subsection \<open>C7: measurement decoding fails closed\<close>



subsection \<open>C8: the input flush before the command frame\<close>

text \<open>
  C8, as stated, fails for \<open>start\<close> (and \<open>stop\<close>): these write their frame and flush the
  output, and never call \<open>flush_input\<close>.
\<close>

theorem start_skips_input_flush:
  "new_events (port0 sim0) (start (sim_uart 20) (port0 sim0)) =
     [EvWrite [0x7E, 0x00, 0x00, 0x02, 0x01, 0x03, 0xF9, 0x7E], EvFlush] \<and>
   \<not> flushes_then_writes (new_events (port0 sim0) (start (sim_uart 20) (port0 sim0)))"
  by (simp add: new_events_start)

text \<open>
  C8, amended: the four operations that read a response (\<open>read_values\<close>,
  \<open>read_product_type\<close>, \<open>read_serial_number\<close>, \<open>read_firmware_version\<close>) begin with the
  events of \<open>flush_input\<close>, followed at once by the write of their command frame;
  \<open>start\<close> and \<open>stop\<close> perform exactly a write and an output flush.
\<close>

theorem reading_operations_flush_first:
  "flushes_then_writes (new_events p (snd (read_product_type U p))) \<and>
   flushes_then_writes (new_events p (snd (read_serial_number U p))) \<and>
   flushes_then_writes (new_events p (snd (read_firmware_version U p))) \<and>
   (read_values F U p = Some (r, p') \<longrightarrow> flushes_then_writes (new_events p p')) \<and>
   new_events p (start U p) = [EvWrite [0x7E, 0x00, 0x00, 0x02, 0x01, 0x03, 0xF9, 0x7E], EvFlush] \<and>
   new_events p (stop U p) = [EvWrite [0x7E, 0x00, 0x01, 0x00, 0xFE, 0x7E], EvFlush]"
proof (intro conjI impI)
  show "flushes_then_writes (new_events p (snd (read_product_type U p)))"
    using read_product_type_events[of p U] by auto
  show "flushes_then_writes (new_events p (snd (read_serial_number U p)))"
    using read_serial_number_events[of p U] by auto
  show "flushes_then_writes (new_events p (snd (read_firmware_version U p)))"
    using read_firmware_version_events[of p U] by auto
  show "new_events p (start U p) = [EvWrite [0x7E, 0x00, 0x00, 0x02, 0x01, 0x03, 0xF9, 0x7E], EvFlush]"
    by (rule new_events_start)
  show "new_events p (stop U p) = [EvWrite [0x7E, 0x00, 0x01, 0x00, 0xFE, 0x7E], EvFlush]"
    by (rule new_events_stop)
  assume "read_values F U p = Some (r, p')"
  from read_values_events[OF this] show "flushes_then_writes (new_events p p')" by auto
qed

theorem reading_operations_flush_first_witness:
  "\<exists>r p'. read_values uint (sim_uart 20) (port0 sim0) = Some (r, p') \<and>
     flushes_then_writes (new_events (port0 sim0) p') \<and>
     take 3 (new_events (port0 sim0) p') =
       [EvAny 3, EvReadAll (Some [0x01, 0x02, 0x03]), EvWrite [0x7E, 0x00, 0x03, 0x00, 0xFC, 0x7E]]"
proof -
  have "map_option (\<lambda>y. take 3 (new_events (port0 sim0) (snd y))) (read_values uint (sim_uart 20) (port0 sim0)) =
        Some [EvAny 3, EvReadAll (Some [0x01, 0x02, 0x03]), EvWrite [0x7E, 0x00, 0x03, 0x00, 0xFC, 0x7E]]"
    by code_simp
  then obtain r p' where h: "read_values uint (sim_uart 20) (port0 sim0) = Some (r, p')"
    and t: "take 3 (new_events (port0 sim0) p') =
       [EvAny 3, EvReadAll (Some [0x01, 0x02, 0x03]), EvWrite [0x7E, 0x00, 0x03, 0x00, 0xFC, 0x7E]]"
    by auto
  from reading_operations_flush_first[of "port0 sim0" "sim_uart 20" uint r p'] h
  have "flushes_then_writes (new_events (port0 sim0) p')" by blast
  with h t show ?thesis by blast
qed

subsection \<open>C9: the length of the buffer that read returns\<close>

text \<open>
  C9. Over a transport whose reads return at most the number of bytes asked for, a
  run of \<open>read len\<close> with \<open>len \<ge> 0\<close> that returns a buffer returns exactly \<open>len\<close> bytes.
\<close>

theorem read_exact_length:
  "reads_bounded U \<Longrightarrow> 0 \<le> len \<Longrightarrow> read U len p = Some (Some out, p') \<Longrightarrow> int (length out) = len"
  using read_loop_length[of U "[]" len p "(Some out, p')" out] by (simp add: read_def)

theorem read_exact_length_witness:
  "reads_bounded (sim_uart 20) \<and> (0::int) \<le> 47 \<and>
   (\<exists>out p'. read (sim_uart 20) 47 (port0 \<lparr>rx = values_reply, replies = []\<rparr>) = Some (Some out, p') \<and>
      int (length out) = 47)"
proof -
  have a: "reads_bounded (sim_uart 20)" by (rule sim_bounded)
  have "map_option fst (read (sim_uart 20) 47 (port0 \<lparr>rx = values_reply, replies = []\<rparr>)) = Some (Some values_reply)"
    by code_simp
  then obtain p' where
    h: "read (sim_uart 20) 47 (port0 \<lparr>rx = values_reply, replies = []\<rparr>) = Some (Some values_reply, p')"
    by auto
  from read_exact_length[OF a _ h] have "int (length values_reply) = 47" by simp
  with a h show ?thesis by auto
qed

subsection \<open>C10: the zero-tuple fallback is unreachable\<close>

text \<open>
  C10. Over a transport whose reads return at most the number of bytes asked for (the
  transport contract), whenever \<open>read_values\<close> returns a tuple \<open>v\<close>, the read of the
  response returned a buffer \<open>raw\<close> of 47 bytes, the slice \<open>raw[5:-2]\<close> has 40 bytes,
  \<open>struct.unpack\<close> succeeded on it with \<open>v\<close> as its result, and \<open>v\<close> is the list of floats
  converted from the ten big-endian words of the slice: the value came out of the
  \<^verbatim>\<open>try\<close> branch, whatever the conversion \<open>F\<close>, and not out of the \<^verbatim>\<open>except\<close> handler.
\<close>

theorem fallback_unreachable:
  "reads_bounded U \<Longrightarrow> read_values F U p = Some (Inr (Some v), p') \<Longrightarrow>
     \<exists>raw. read U 47 (uart_write U [0x7E, 0x00, 0x03, 0x00, 0xFC, 0x7E] (flush_input U p)) =
             Some (Some raw, p') \<and>
           length raw = 47 \<and> length (slice 5 2 raw) = 40 \<and>
           unpack_floats F 10 (slice 5 2 raw) = Inr v \<and>
           v = map F (be_words (slice 5 2 raw)) \<and> length v = 10"
proof -
  assume b: "reads_bounded U" and rv: "read_values F U p = Some (Inr (Some v), p')"
  let ?q = "uart_write U [0x7E, 0x00, 0x03, 0x00, 0xFC, 0x7E] (flush_input U p)"
  from rv obtain raw where r: "read U 47 ?q = Some (Some raw, p')"
    and v: "v = unpack_values F (slice 5 2 raw)"
    by (auto simp: read_values_of_read split: option.splits prod.splits)
  from read_loop_length[of U "[]" 47 ?q "(Some raw, p')" raw] b r
  have l: "length raw = 47" by (simp add: read_def)
  then have l40: "length (slice 5 2 raw) = 40" by (simp add: slice_def)
  from unpack_values_decodes(1)[OF l40] v have v': "v = map F (be_words (slice 5 2 raw))" by simp
  from l40 v' have u: "unpack_floats F 10 (slice 5 2 raw) = Inr v" by (simp add: unpack_floats_def)
  from unpack_values_decodes(2)[OF l40] v have "length v = 10" by simp
  with r l l40 u v' show ?thesis by blast
qed

theorem fallback_unreachable_witness:
  "reads_bounded (sim_uart 20) \<and>
   (\<exists>v p'. read_values uint (sim_uart 20) (port0 sim1) = Some (Inr (Some v), p') \<and>
      v = [0, 0, 0, 0, 0, 0, 0, 0, 0, 1065353216] \<and>
      (\<exists>raw. read (sim_uart 20) 47
                (uart_write (sim_uart 20) [0x7E, 0x00, 0x03, 0x00, 0xFC, 0x7E]
                   (flush_input (sim_uart 20) (port0 sim1))) = Some (Some raw, p') \<and>
              length raw = 47 \<and> length (slice 5 2 raw) = 40 \<and>
              unpack_floats uint 10 (slice 5 2 raw) = Inr v))"
proof -
  have a: "reads_bounded (sim_uart 20)" by (rule sim_bounded)
  have "map_option fst (read_values uint (sim_uart 20) (port0 sim1)) =
        Some (Inr (Some [0, 0, 0, 0, 0, 0, 0, 0, 0, 1065353216]))"
    by code_simp
  then obtain p' where
    h: "read_values uint (sim_uart 20) (port0 sim1) =
          Some (Inr (Some [0, 0, 0, 0, 0, 0, 0, 0, 0, 1065353216]), p')"
    by auto
  from fallback_unreachable[OF a h] a h show ?thesis by blast
qed

end
